theory Spec2Isabelle
  imports Main "HOL-Library.Sublist"
begin

section \<open>Paths (Node's \<open>path\<close> module on POSIX, separator \<open>/\<close>)\<close>

text \<open>
  The program builds and inspects paths as strings: \<open>entryDir.split(path.sep)\<close>,
  \<open>path.basename(entryDir)\<close>, \<open>path.join(dir, name)\<close> and \<open>path.resolve(p)\<close>.
  The functions below follow Node's POSIX implementation of these library calls.
\<close>

definition sep :: char where
  "sep = CHR ''/''"

text \<open>\<open>s.split(path.sep)\<close>: the pieces between separators; the empty string gives one
  empty piece.\<close>

fun split_sep :: "string \<Rightarrow> string list" where
  "split_sep [] = [[]]"
| "split_sep (c # cs) =
     (if c = sep then [] # split_sep cs
      else (case split_sep cs of
              [] \<Rightarrow> [[c]]
            | p # ps \<Rightarrow> (c # p) # ps))"

text \<open>\<open>parts.join(path.sep)\<close>.\<close>

fun join_sep :: "string list \<Rightarrow> string" where
  "join_sep [] = []"
| "join_sep [x] = x"
| "join_sep (x # y # ys) = x @ sep # join_sep (y # ys)"

text \<open>
  \<open>normalizeString\<close> of Node's \<open>path\<close> module, on the list of segments: empty segments
  and \<open>.\<close> are dropped, \<open>..\<close> removes the segment before it; where nothing is left to
  remove, \<open>..\<close> is kept when \<open>allowAboveRoot\<close> holds (a relative path) and dropped
  otherwise.
\<close>

fun normalizeString :: "bool \<Rightarrow> string list \<Rightarrow> string list \<Rightarrow> string list" where
  "normalizeString allowAboveRoot res [] = res"
| "normalizeString allowAboveRoot res (s # ss) =
     (if s = [] \<or> s = ''.'' then normalizeString allowAboveRoot res ss
      else if s = ''..'' then
        (if res \<noteq> [] \<and> last res \<noteq> ''..'' then normalizeString allowAboveRoot (butlast res) ss
         else if allowAboveRoot then normalizeString allowAboveRoot (res @ [''..'']) ss
         else normalizeString allowAboveRoot res ss)
      else normalizeString allowAboveRoot (res @ [s]) ss)"

definition isAbsolute :: "string \<Rightarrow> bool" where
  "isAbsolute p = (case p of [] \<Rightarrow> False | c # _ \<Rightarrow> c = sep)"

definition normalize :: "string \<Rightarrow> string" where
  "normalize p =
     (if p = [] then ''.''
      else
        let trailingSeparator = (last p = sep);
            q = join_sep (normalizeString (\<not> isAbsolute p) [] (split_sep p))
        in if q = [] then (if isAbsolute p then [sep] else if trailingSeparator then ''./'' else ''.'')
           else (if isAbsolute p then [sep] else []) @ q @ (if trailingSeparator then [sep] else []))"

text \<open>\<open>path.join(a, b)\<close>: the non-empty arguments joined by the separator, normalised.\<close>

definition join :: "string \<Rightarrow> string \<Rightarrow> string" where
  "join a b =
     (let args = filter (\<lambda>s. s \<noteq> []) [a, b]
      in if args = [] then ''.'' else normalize (join_sep args))"

text \<open>\<open>path.basename(p)\<close>: the last non-empty piece of the path, or the empty string.\<close>

definition basename :: "string \<Rightarrow> string" where
  "basename p =
     (case filter (\<lambda>s. s \<noteq> []) (split_sep p) of
        [] \<Rightarrow> []
      | cs \<Rightarrow> last cs)"

text \<open>\<open>path.resolve(p)\<close> with the working directory \<open>cwd\<close> (an absolute path): the
  absolute, normalised path without a trailing separator.\<close>

definition resolve :: "string \<Rightarrow> string \<Rightarrow> string" where
  "resolve cwd p =
     sep # join_sep (normalizeString False []
       (split_sep (if isAbsolute p then p else if p = [] then cwd else cwd @ sep # p)))"

text \<open>The components of an absolute path, as the operating system walks them.\<close>

definition path_components :: "string \<Rightarrow> string list" where
  "path_components p = normalizeString False [] (split_sep p)"

text \<open>
  A name as a directory listing returns it: not empty, without a separator, and neither
  \<open>.\<close> nor \<open>..\<close>. \<open>abs_path cs\<close> is the absolute path with these components, the form
  in which \<open>path.resolve\<close> and \<open>path.join\<close> return paths.
\<close>

definition proper_name :: "string \<Rightarrow> bool" where
  "proper_name n \<longleftrightarrow> n \<noteq> [] \<and> sep \<notin> set n \<and> n \<noteq> ''.'' \<and> n \<noteq> ''..''"

definition abs_path :: "string list \<Rightarrow> string" where
  "abs_path cs = sep # join_sep cs"

section \<open>Target definitions\<close>

datatype matchKind =
    Direct
  | Parent string
  | ParentPath string string
  | Sibling string

record target =
  name :: string
  match :: matchKind

definition TARGETS :: "target list" where
  "TARGETS =
    [\<lparr>name = ''node_modules'', match = Direct\<rparr>,
     \<lparr>name = ''Pods'', match = Parent ''ios''\<rparr>,
     \<lparr>name = ''.next'', match = Direct\<rparr>,
     \<lparr>name = ''.nuxt'', match = Direct\<rparr>,
     \<lparr>name = ''.gradle'', match = Parent ''android''\<rparr>,
     \<lparr>name = ''build'', match = ParentPath ''android'' ''app''\<rparr>,
     \<lparr>name = ''.cxx'', match = ParentPath ''android'' ''app''\<rparr>,
     \<lparr>name = ''dist'', match = Direct\<rparr>,
     \<lparr>name = ''vendor'', match = Sibling ''Gemfile''\<rparr>,
     \<lparr>name = ''.build'', match = Direct\<rparr>,
     \<lparr>name = ''target'', match = Sibling ''Cargo.toml''\<rparr>,
     \<lparr>name = ''__pycache__'', match = Direct\<rparr>,
     \<lparr>name = ''.venv'', match = Direct\<rparr>,
     \<lparr>name = ''venv'', match = Direct\<rparr>,
     \<lparr>name = ''.dart_tool'', match = Direct\<rparr>,
     \<lparr>name = ''.turbo'', match = Direct\<rparr>,
     \<lparr>name = ''.parcel-cache'', match = Direct\<rparr>]"

definition TARGET_NAMES :: "string list" where
  "TARGET_NAMES = map name TARGETS"

definition SKIP_DIRS :: "string list" where
  "SKIP_DIRS = [''.git'']"

section \<open>Scanner: the matcher\<close>

datatype errno = ENOENT | EACCES | ENOTDIR | EBUSY

text \<open>
  \<open>isTargetMatch(entryName, entryDir)\<close>. The first argument of the model is the
  file system's answer to \<open>fs.accessSync(p, fs.constants.F_OK)\<close>: \<open>None\<close> when the call
  returns, \<open>Some e\<close> when it throws \<open>e\<close>. The loop goes through the targets in order;
  \<open>break\<close> leaves the \<open>switch\<close> and the loop goes on with the next target.
\<close>

fun isTargetMatch_loop ::
  "(string \<Rightarrow> errno option) \<Rightarrow> target list \<Rightarrow> string \<Rightarrow> string \<Rightarrow> bool" where
  "isTargetMatch_loop accessSync [] entryName entryDir = False"
| "isTargetMatch_loop accessSync (t # ts) entryName entryDir =
     (if name t \<noteq> entryName then isTargetMatch_loop accessSync ts entryName entryDir
      else
        let parentName = basename entryDir in
        (case match t of
           Direct \<Rightarrow> True
         | Parent parent \<Rightarrow>
             if parentName = parent then True
             else isTargetMatch_loop accessSync ts entryName entryDir
         | ParentPath parents0 parents1 \<Rightarrow>
             let parts = split_sep entryDir; len = length parts in
             if len \<ge> 2 \<and> parts ! (len - 1) = parents1 \<and> parts ! (len - 2) = parents0 then True
             else isTargetMatch_loop accessSync ts entryName entryDir
         | Sibling sibling \<Rightarrow>
             let siblingPath = join entryDir sibling in
             (case accessSync siblingPath of
                None \<Rightarrow> True
              | Some e \<Rightarrow> isTargetMatch_loop accessSync ts entryName entryDir)))"

definition isTargetMatch :: "(string \<Rightarrow> errno option) \<Rightarrow> string \<Rightarrow> string \<Rightarrow> bool" where
  "isTargetMatch accessSync entryName entryDir =
     isTargetMatch_loop accessSync TARGETS entryName entryDir"

section \<open>The file system\<close>

text \<open>
  The program reaches the file system through \<open>fs.readdirSync\<close>, \<open>fs.accessSync\<close>,
  \<open>fs.statSync\<close> and \<open>fs.rmSync\<close>. The model is a finite tree. A directory carries the
  three permissions the calls depend on (listing needs \<open>readable\<close>, reaching an entry
  needs \<open>searchable\<close>, removing an entry needs \<open>writable\<close>) and its entries in the
  order \<open>readdirSync\<close> returns them. A file carries its size in bytes; a symbolic
  link carries the node it resolves to, or nothing when it dangles. Other kinds of
  entries (sockets, devices) are left out.
\<close>

record perm =
  readable :: bool
  writable :: bool
  searchable :: bool

datatype node =
    File nat
  | Symlink "node option"
  | Dir perm "(string \<times> node) list"

text \<open>\<open>Dirent.isDirectory()\<close> of an entry read with \<open>withFileTypes\<close>: a symbolic link is
  not a directory, whatever it points to.\<close>

fun isDirectory :: "node \<Rightarrow> bool" where
  "isDirectory (Dir m es) = True"
| "isDirectory (File sz) = False"
| "isDirectory (Symlink t) = False"

fun isSymbolicLink :: "node \<Rightarrow> bool" where
  "isSymbolicLink (Symlink t) = True"
| "isSymbolicLink (File sz) = False"
| "isSymbolicLink (Dir m es) = False"

fun isFile :: "node \<Rightarrow> bool" where
  "isFile (File sz) = True"
| "isFile (Symlink t) = False"
| "isFile (Dir m es) = False"

text \<open>
  Path resolution from a node along components, following symbolic links, with the
  error the operating system reports: \<open>EACCES\<close> below a directory that cannot be
  searched, \<open>ENOTDIR\<close> below a file, \<open>ENOENT\<close> for a missing entry or a dangling link.
\<close>

fun lookup :: "node \<Rightarrow> string list \<Rightarrow> errno + node"
  and lookup_in :: "(string \<times> node) list \<Rightarrow> string \<Rightarrow> string list \<Rightarrow> errno + node" where
  "lookup (Symlink None) cs = Inl ENOENT"
| "lookup (Symlink (Some t)) cs = lookup t cs"
| "lookup (File sz) [] = Inr (File sz)"
| "lookup (File sz) (c # cs) = Inl ENOTDIR"
| "lookup (Dir m es) [] = Inr (Dir m es)"
| "lookup (Dir m es) (c # cs) = (if \<not> searchable m then Inl EACCES else lookup_in es c cs)"
| "lookup_in [] c cs = Inl ENOENT"
| "lookup_in ((n, child) # es) c cs = (if n = c then lookup child cs else lookup_in es c cs)"

text \<open>\<open>fs.accessSync(p, fs.constants.F_OK)\<close> on the file system \<open>root\<close>: \<open>None\<close> when the
  call returns, \<open>Some e\<close> when it throws.\<close>

definition accessSync :: "node \<Rightarrow> string \<Rightarrow> errno option" where
  "accessSync root p =
     (case lookup root (path_components p) of
        Inl e \<Rightarrow> Some e
      | Inr n \<Rightarrow> None)"

text \<open>\<open>fs.statSync(p)\<close>: the node the path resolves to, or the error thrown.\<close>

definition statSync :: "node \<Rightarrow> string \<Rightarrow> errno + node" where
  "statSync root p = lookup root (path_components p)"

text \<open>\<open>lstat\<close>: resolution that does not follow a symbolic link in the last component.
  A path has vanished when it gives \<open>ENOENT\<close>.\<close>

fun lstat :: "node \<Rightarrow> string list \<Rightarrow> errno + node"
  and lstat_in :: "(string \<times> node) list \<Rightarrow> string \<Rightarrow> string list \<Rightarrow> errno + node" where
  "lstat n [] = Inr n"
| "lstat (Symlink None) (c # cs) = Inl ENOENT"
| "lstat (Symlink (Some t)) (c # cs) = lstat t (c # cs)"
| "lstat (File sz) (c # cs) = Inl ENOTDIR"
| "lstat (Dir m es) (c # cs) = (if \<not> searchable m then Inl EACCES else lstat_in es c cs)"
| "lstat_in [] c cs = Inl ENOENT"
| "lstat_in ((n, child) # es) c cs = (if n = c then lstat child cs else lstat_in es c cs)"

definition lstatSync :: "node \<Rightarrow> string \<Rightarrow> errno + node" where
  "lstatSync root p = lstat root (path_components p)"

text \<open>\<open>fs.readdirSync(p, {withFileTypes: true})\<close>: the entries of the directory the
  path resolves to, each with the node that gives its type, or the error thrown.\<close>

definition readdirSync :: "node \<Rightarrow> string \<Rightarrow> errno + (string \<times> node) list" where
  "readdirSync root p =
     (case lookup root (path_components p) of
        Inl e \<Rightarrow> Inl e
      | Inr (Dir m es) \<Rightarrow> if readable m then Inr es else Inl EACCES
      | Inr (File sz) \<Rightarrow> Inl ENOTDIR
      | Inr (Symlink t) \<Rightarrow> Inl ENOENT)"

section \<open>Scanner: the tree walker\<close>

record MatchRecord =
  r_name :: string
  r_path :: string
  r_size :: nat

text \<open>
  \<open>walk(dir)\<close> inside \<open>scan\<close>. The model passes the node found at \<open>dir\<close> along with
  \<open>dir\<close>, and \<open>reach\<close>, which tells whether every directory above it can be searched:
  \<open>fs.readdirSync(dir, {withFileTypes: true})\<close> throws unless \<open>reach\<close> holds and the
  node is a readable directory, and then \<open>walk\<close> returns at once. \<open>results\<close> is the
  array the closure pushes to. The progress spinner only writes to the terminal and is
  left out.
\<close>

fun walk ::
    "(string \<Rightarrow> errno option) \<Rightarrow> bool \<Rightarrow> string \<Rightarrow> node \<Rightarrow> MatchRecord list \<Rightarrow> MatchRecord list"
  and walk_loop ::
    "(string \<Rightarrow> errno option) \<Rightarrow> bool \<Rightarrow> string \<Rightarrow> (string \<times> node) list \<Rightarrow>
       MatchRecord list \<Rightarrow> MatchRecord list" where
  "walk acc reach dir (File sz) results = results"
| "walk acc reach dir (Symlink None) results = results"
| "walk acc reach dir (Symlink (Some t)) results = walk acc reach dir t results"
| "walk acc reach dir (Dir m entries) results =
     (if reach \<and> readable m then walk_loop acc (searchable m) dir entries results
      else results)"
| "walk_loop acc reach dir [] results = results"
| "walk_loop acc reach dir ((ename, entry) # entries) results =
     (if \<not> isDirectory entry then walk_loop acc reach dir entries results
      else if ename \<in> set SKIP_DIRS then walk_loop acc reach dir entries results
      else
        let fullPath = join dir ename in
        if isTargetMatch acc ename dir then
          walk_loop acc reach dir entries
            (results @ [\<lparr>r_name = ename, r_path = fullPath, r_size = 0\<rparr>])
        else if ename \<in> set TARGET_NAMES then walk_loop acc reach dir entries results
        else walk_loop acc reach dir entries (walk acc reach fullPath entry results))"

text \<open>\<open>scan(rootPath)\<close> on the file system \<open>root\<close>: the walk starts at the node the root
  path resolves to; when it does not resolve, the first \<open>readdirSync\<close> throws and the
  result is empty.\<close>

definition scan :: "node \<Rightarrow> string \<Rightarrow> MatchRecord list" where
  "scan root rootPath =
     (case lookup root (path_components rootPath) of
        Inl e \<Rightarrow> []
      | Inr n \<Rightarrow> walk (accessSync root) True rootPath n [])"

text \<open>Every entry name in the tree is a name a directory listing can return.\<close>

fun proper_names :: "node \<Rightarrow> bool"
  and proper_entries :: "(string \<times> node) list \<Rightarrow> bool" where
  "proper_names (File sz) = True"
| "proper_names (Symlink None) = True"
| "proper_names (Symlink (Some t)) = proper_names t"
| "proper_names (Dir m es) = proper_entries es"
| "proper_entries [] = True"
| "proper_entries ((n, child) # es) = (proper_name n \<and> proper_names child \<and> proper_entries es)"

text \<open>\<open>p\<close> lies strictly below \<open>q\<close>: the components of \<open>q\<close> are a strict prefix of those
  of \<open>p\<close>. \<open>p\<close> lies at or below \<open>q\<close> when they are a prefix.\<close>

definition strict_descendant :: "string \<Rightarrow> string \<Rightarrow> bool" where
  "strict_descendant p q = strict_prefix (path_components q) (path_components p)"

definition at_or_below :: "string \<Rightarrow> string \<Rightarrow> bool" where
  "at_or_below p q = prefix (path_components q) (path_components p)"

section \<open>Numbers\<close>

text \<open>
  Sizes and byte counts are JavaScript numbers, that is IEEE doubles. The values that
  occur here are integers that are not negative; such a number is a double exactly
  when it fits 53 significant bits. \<open>round_double\<close> takes an integer to the nearest
  double, ties to the even significand; up to \<open>2 ^ 53\<close> every integer is a double.
  Negative numbers and numbers beyond the range of doubles are left out.
\<close>

fun bit_length :: "nat \<Rightarrow> nat" where
  "bit_length n = (if n = 0 then 0 else Suc (bit_length (n div 2)))"

declare bit_length.simps [simp del]

definition round_double :: "nat \<Rightarrow> nat" where
  "round_double n =
     (if n \<le> 2 ^ 53 then n
      else
        let u = 2 ^ (bit_length n - 53); q = n div u; r = n mod u in
        if 2 * r < u then q * u
        else if u < 2 * r then (q + 1) * u
        else if even q then q * u
        else (q + 1) * u)"

text \<open>\<open>a + b\<close> on two doubles.\<close>

definition js_add :: "nat \<Rightarrow> nat \<Rightarrow> nat" where
  "js_add a b = round_double (a + b)"

section \<open>Size calculation\<close>

text \<open>
  \<open>execSync(command, ...)\<close> hands the command line to the shell. What the shell does
  is given from outside: for a command line and a file system, the number that
  \<open>parseInt(output.split("\t")[0], 10)\<close> reads from the output (\<open>None\<close> when the call
  throws, times out, or the output starts with no number), and the file system the
  command leaves behind. The command may be anything a shell can run: the path is put
  between double quotes, where the shell still expands \<open>$(...)\<close> and backquotes and
  where a double quote in the path ends the quoting.
\<close>

type_synonym exec = "string \<Rightarrow> node \<Rightarrow> nat option \<times> node"

definition du_command :: "string \<Rightarrow> string" where
  "du_command dirPath = ''du -sk '' @ [CHR 0x22] @ dirPath @ [CHR 0x22] @ '' 2>/dev/null''"

text \<open>\<open>fs.statSync(p).size\<close> on a node: the size of a file as a number. The size of a
  directory inode is not modelled and counts as nothing; the fallback below asks for
  the size of entries listed as files only.\<close>

fun stat_size :: "node \<Rightarrow> nat" where
  "stat_size (File sz) = round_double sz"
| "stat_size (Dir m es) = 0"
| "stat_size (Symlink t) = 0"

text \<open>
  \<open>getDirSize(dirPath)\<close>, with the file system passed through, since the shell
  command may change it. Unless the platform is win32 the command \<open>du -sk "<path>"\<close>
  is run first; when it gives a number, the size is that number times 1024. Otherwise
  the fallback lists the directory as it is now: symbolic links are skipped, an entry
  listed as a file adds its size unless \<open>statSync\<close> throws, an entry listed as a
  directory adds its own \<open>getDirSize\<close>; every error is caught and adds nothing. The
  first argument bounds the depth of the recursion, which the source does not: \<open>None\<close>
  says that the bound was reached.
\<close>

fun getDirSize :: "nat \<Rightarrow> bool \<Rightarrow> exec \<Rightarrow> node \<Rightarrow> string \<Rightarrow> (nat \<times> node) option"
  and getDirSize_loop ::
    "nat \<Rightarrow> bool \<Rightarrow> exec \<Rightarrow> node \<Rightarrow> string \<Rightarrow> (string \<times> node) list \<Rightarrow> nat \<Rightarrow> (nat \<times> node) option" where
  "getDirSize 0 win32 execSync fs dirPath = None"
| "getDirSize (Suc k) win32 execSync fs dirPath =
     (case (if win32 then (None, fs) else execSync (du_command dirPath) fs) of
        (Some kb, fs1) \<Rightarrow> Some (round_double (kb * 1024), fs1)
      | (None, fs1) \<Rightarrow>
          (case readdirSync fs1 dirPath of
             Inl e \<Rightarrow> Some (0, fs1)
           | Inr entries \<Rightarrow> getDirSize_loop k win32 execSync fs1 dirPath entries 0))"
| "getDirSize_loop k win32 execSync fs dirPath [] tot = Some (tot, fs)"
| "getDirSize_loop k win32 execSync fs dirPath ((ename, entry) # entries) tot =
     (let fullPath = join dirPath ename in
      if isSymbolicLink entry then getDirSize_loop k win32 execSync fs dirPath entries tot
      else if isFile entry then
        (case statSync fs fullPath of
           Inl e \<Rightarrow> getDirSize_loop k win32 execSync fs dirPath entries tot
         | Inr st \<Rightarrow>
             getDirSize_loop k win32 execSync fs dirPath entries (js_add tot (stat_size st)))
      else if isDirectory entry then
        (case getDirSize k win32 execSync fs fullPath of
           None \<Rightarrow> None
         | Some (sz, fs1) \<Rightarrow>
             getDirSize_loop k win32 execSync fs1 dirPath entries (js_add tot sz))
      else getDirSize_loop k win32 execSync fs dirPath entries tot)"

section \<open>Deletion\<close>

text \<open>
  \<open>fs.rmSync(p, {recursive: true, force: true})\<close> on the tree: the error thrown, if
  any, and the file system afterwards. A path that does not exist is not an error
  (\<open>force\<close>). An existing entry is unlinked without following it when its directory is
  writable and every non-empty directory below it can be listed, searched and written;
  otherwise the call throws \<open>EACCES\<close>. What a failed call has already removed is not
  tracked: the tree is left as it was.
\<close>

fun removable :: "node \<Rightarrow> bool"
  and removable_entries :: "(string \<times> node) list \<Rightarrow> bool" where
  "removable (File sz) = True"
| "removable (Symlink t) = True"
| "removable (Dir m es) =
     (es = [] \<or> (readable m \<and> writable m \<and> searchable m \<and> removable_entries es))"
| "removable_entries [] = True"
| "removable_entries ((n, child) # es) = (removable child \<and> removable_entries es)"

fun rm_at :: "node \<Rightarrow> string list \<Rightarrow> errno option \<times> node"
  and rm_in :: "perm \<Rightarrow> (string \<times> node) list \<Rightarrow> string \<Rightarrow> string list \<Rightarrow>
                  errno option \<times> (string \<times> node) list" where
  "rm_at (File sz) cs = (Some ENOTDIR, File sz)"
| "rm_at (Symlink None) cs = (None, Symlink None)"
| "rm_at (Symlink (Some t)) cs = (case rm_at t cs of (e, t') \<Rightarrow> (e, Symlink (Some t')))"
| "rm_at (Dir m es) [] = (Some EBUSY, Dir m es)"
| "rm_at (Dir m es) (c # cs) =
     (if \<not> searchable m then (Some EACCES, Dir m es)
      else (case rm_in m es c cs of (e, es') \<Rightarrow> (e, Dir m es')))"
| "rm_in m [] c cs = (None, [])"
| "rm_in m ((n, child) # es) c cs =
     (if n \<noteq> c then (case rm_in m es c cs of (e, es') \<Rightarrow> (e, (n, child) # es'))
      else if cs = [] then
        (if writable m \<and> removable child then (None, es)
         else (Some EACCES, (n, child) # es))
      else (case rm_at child cs of (e, child') \<Rightarrow> (e, (n, child') # es)))"

definition rmSync :: "node \<Rightarrow> string \<Rightarrow> errno option \<times> node" where
  "rmSync root p = rm_at root (path_components p)"

text \<open>
  \<open>deleteResults(results)\<close>. \<open>rm\<close> is the removal call; the state holds the file
  system, the two counters and the lines \<open>Failed to delete <name>: <message>\<close> printed
  so far. \<open>freed += r.size\<close> adds two doubles. The progress line only writes to the
  terminal and is left out.
\<close>

record del_state =
  d_fs :: node
  freed :: nat
  failed :: nat
  failures :: "(string \<times> errno) list"

fun deleteResults_loop ::
  "(node \<Rightarrow> string \<Rightarrow> errno option \<times> node) \<Rightarrow> MatchRecord list \<Rightarrow> del_state \<Rightarrow> del_state" where
  "deleteResults_loop rm [] st = st"
| "deleteResults_loop rm (r # rs) st =
     (case rm (d_fs st) (r_path r) of
        (None, fs') \<Rightarrow>
          deleteResults_loop rm rs (st\<lparr>d_fs := fs', freed := js_add (freed st) (r_size r)\<rparr>)
      | (Some err, fs') \<Rightarrow>
          deleteResults_loop rm rs
            (st\<lparr>d_fs := fs', failed := failed st + 1,
               failures := failures st @ [(r_name r, err)]\<rparr>))"

definition deleteResults ::
  "(node \<Rightarrow> string \<Rightarrow> errno option \<times> node) \<Rightarrow> MatchRecord list \<Rightarrow> node \<Rightarrow> del_state" where
  "deleteResults rm results fs =
     deleteResults_loop rm results \<lparr>d_fs = fs, freed = 0, failed = 0, failures = []\<rparr>"


section \<open>Main\<close>

record args =
  path :: "string option"
  dryRun :: bool
  yes :: bool
  version :: bool
  "help" :: bool

definition startsWith_dash :: "string \<Rightarrow> bool" where
  "startsWith_dash arg = (case arg of [] \<Rightarrow> False | c # _ \<Rightarrow> c = CHR ''-'')"

fun parseArgs_loop :: "string list \<Rightarrow> args \<Rightarrow> args" where
  "parseArgs_loop [] a = a"
| "parseArgs_loop (arg # rest) a =
     (if arg = ''-d'' \<or> arg = ''--dry-run'' then parseArgs_loop rest (a\<lparr>dryRun := True\<rparr>)
      else if arg = ''-y'' \<or> arg = ''--yes'' then parseArgs_loop rest (a\<lparr>yes := True\<rparr>)
      else if arg = ''-v'' \<or> arg = ''--version'' then parseArgs_loop rest (a\<lparr>version := True\<rparr>)
      else if arg = ''-h'' \<or> arg = ''--help'' then parseArgs_loop rest (a\<lparr>help := True\<rparr>)
      else if \<not> startsWith_dash arg then parseArgs_loop rest (a\<lparr>path := Some arg\<rparr>)
      else parseArgs_loop rest a)"

definition parseArgs :: "string list \<Rightarrow> args" where
  "parseArgs argv =
     parseArgs_loop (drop 2 argv)
       \<lparr>path = None, dryRun = False, yes = False, version = False, help = False\<rparr>"

text \<open>
  The surroundings of a run: the working directory, whether \<open>process.platform\<close> is
  win32, what the shell does with a command line, and the answer typed at the
  confirmation prompt (trimmed and in lower case, as \<open>prompt\<close> returns it).
\<close>

record env =
  cwd :: string
  win32 :: bool
  execSync :: exec
  answer :: string

text \<open>
  What a run leaves behind: the exit code, the file system, the list \<open>showResults\<close>
  printed (\<open>None\<close> when it was not called) and the final state of \<open>deleteResults\<close>
  (\<open>None\<close> when it was not called).
\<close>

record run =
  exit_code :: nat
  fs_after :: node
  shown :: "MatchRecord list option"
  deletion :: "del_state option"

text \<open>\<open>showResults\<close> sorts the array in place by size, largest first; the sort is
  stable.\<close>

definition sort_by_size :: "MatchRecord list \<Rightarrow> MatchRecord list" where
  "sort_by_size results = sort_key (\<lambda>r. - int (r_size r)) results"

text \<open>\<open>path.resolve(args.path || ".")\<close>.\<close>

definition targetPath :: "env \<Rightarrow> args \<Rightarrow> string" where
  "targetPath e a =
     resolve (cwd e) (case path a of None \<Rightarrow> ''.'' | Some p \<Rightarrow> if p = [] then ''.'' else p)"

text \<open>The loop of \<open>main\<close> that stores \<open>getDirSize(results[i].path)\<close> in every record,
  with the file system passed through.\<close>

fun with_sizes ::
  "nat \<Rightarrow> bool \<Rightarrow> exec \<Rightarrow> node \<Rightarrow> MatchRecord list \<Rightarrow> (MatchRecord list \<times> node) option" where
  "with_sizes k w ex fs [] = Some ([], fs)"
| "with_sizes k w ex fs (r # rs) =
     (case getDirSize k w ex fs (r_path r) of
        None \<Rightarrow> None
      | Some (sz, fs1) \<Rightarrow>
          (case with_sizes k w ex fs1 rs of
             None \<Rightarrow> None
           | Some (rs', fs2) \<Rightarrow> Some (r\<lparr>r_size := sz\<rparr> # rs', fs2)))"

text \<open>
  \<open>main\<close>. \<open>k\<close> is the depth bound of the size calculation; the result is \<open>None\<close> when
  it was reached. The file system that sizing leaves behind is the one shown as left
  by a dry run and the one that \<open>deleteResults\<close> starts from.
\<close>

definition main ::
  "nat \<Rightarrow> (node \<Rightarrow> string \<Rightarrow> errno option \<times> node) \<Rightarrow> env \<Rightarrow> string list \<Rightarrow> node \<Rightarrow> run option" where
  "main k rm e argv fs =
     (let a = parseArgs argv in
      if version a then Some \<lparr>exit_code = 0, fs_after = fs, shown = None, deletion = None\<rparr>
      else if help a then Some \<lparr>exit_code = 0, fs_after = fs, shown = None, deletion = None\<rparr>
      else
        (case statSync fs (targetPath e a) of
           Inl err \<Rightarrow> Some \<lparr>exit_code = 1, fs_after = fs, shown = None, deletion = None\<rparr>
         | Inr st \<Rightarrow>
             if \<not> isDirectory st then
               Some \<lparr>exit_code = 1, fs_after = fs, shown = None, deletion = None\<rparr>
             else
               let results = scan fs (targetPath e a) in
               if results = [] then
                 Some \<lparr>exit_code = 0, fs_after = fs, shown = Some [], deletion = None\<rparr>
               else
                 (case with_sizes k (win32 e) (execSync e) fs results of
                    None \<Rightarrow> None
                  | Some (sized, fs1) \<Rightarrow>
                      let sorted = sort_by_size sized in
                      if dryRun a then
                        Some \<lparr>exit_code = 0, fs_after = fs1, shown = Some sorted, deletion = None\<rparr>
                      else if \<not> yes a \<and> answer e \<noteq> ''y'' \<and> answer e \<noteq> ''yes'' then
                        Some \<lparr>exit_code = 0, fs_after = fs1, shown = Some sorted, deletion = None\<rparr>
                      else
                        let d = deleteResults rm sorted fs1 in
                        Some \<lparr>exit_code = 0, fs_after = d_fs d, shown = Some sorted,
                              deletion = Some d\<rparr>)))"

section \<open>The rule of the specification for sibling files\<close>

text \<open>
  The SiblingFile rule in the words of the specification: a file with the given name
  exists directly inside the candidate's parent directory.
\<close>

definition sibling_file_exists :: "node \<Rightarrow> string \<Rightarrow> string \<Rightarrow> bool" where
  "sibling_file_exists root dir sibling =
     (case lookup root (path_components (join dir sibling)) of
        Inr n \<Rightarrow> isFile n
      | Inl e \<Rightarrow> False)"

section \<open>Example file systems\<close>

definition rwx :: perm where
  "rwx = \<lparr>readable = True, writable = True, searchable = True\<rparr>"

text \<open>A directory that can be listed but not searched.\<close>

definition r_only :: perm where
  "r_only = \<lparr>readable = True, writable = False, searchable = False\<rparr>"

text \<open>A directory that can be listed and searched but not written.\<close>

definition r_x :: perm where
  "r_x = \<lparr>readable = True, writable = False, searchable = True\<rparr>"

text \<open>\<open>/proj\<close> holds \<open>vendor\<close> next to a directory named \<open>Gemfile\<close>.\<close>

definition fs_gemfile_dir :: node where
  "fs_gemfile_dir =
     Dir rwx [(''proj'', Dir rwx [(''vendor'', Dir rwx [(''lib'', File 7)]),
                                  (''Gemfile'', Dir rwx [])])]"

text \<open>\<open>/ruby\<close> holds \<open>vendor\<close> next to a file \<open>Gemfile\<close>; \<open>/locked\<close> holds the same two
  entries but cannot be searched; \<open>/plain\<close> holds \<open>vendor\<close> alone.\<close>

definition fs_gemfiles :: node where
  "fs_gemfiles =
     Dir rwx [(''ruby'', Dir rwx [(''vendor'', Dir rwx []), (''Gemfile'', File 120)]),
              (''locked'', Dir r_only [(''vendor'', Dir rwx []), (''Gemfile'', File 120)]),
              (''plain'', Dir rwx [(''vendor'', Dir rwx [])])]"

text \<open>The projects of the specification's end-to-end scenario, with a nested
  \<open>node_modules\<close>, a \<open>target\<close> without manifest that holds a \<open>node_modules\<close> deep
  inside, and version-control directories.\<close>

definition fs_projects :: node where
  "fs_projects =
     Dir rwx [(''proj'', Dir rwx
       [(''node_modules'', Dir rwx [(''a'', Dir rwx [(''node_modules'', Dir rwx [])])]),
        (''ios'', Dir rwx [(''Pods'', Dir rwx []), (''NotPods'', Dir rwx [])]),
        (''backend'', Dir rwx
           [(''target'', Dir rwx [(''x'', Dir rwx [(''node_modules'', Dir rwx [])])])]),
        (''rustcrate'', Dir rwx [(''target'', Dir rwx []), (''Cargo.toml'', File 300)]),
        (''.git'', Dir rwx [(''node_modules'', Dir rwx [])]),
        (''.svn'', Dir rwx [(''node_modules'', Dir rwx [])]),
        (''README.md'', File 12)])]"

text \<open>Three artifacts with files of known sizes; \<open>/proj/ios\<close> cannot be written, so
  \<open>Pods\<close> cannot be removed from it.\<close>

definition fs_artifacts :: node where
  "fs_artifacts =
     Dir rwx [(''proj'', Dir rwx
       [(''node_modules'', Dir rwx [(''pkg'', Dir rwx [(''index.js'', File 2048)])]),
        (''ios'', Dir r_x [(''Pods'', Dir rwx [(''lib.a'', File 512)])]),
        (''dist'', Dir rwx [(''bundle.js'', File 1024)])])]"


text \<open>
  A project in which one directory has a name that the shell expands: \<open>a$(rm -r dist)\<close>
  holds a \<open>node_modules\<close>, and \<open>dist\<close> is a build output beside it.
\<close>

definition fs_shell_name :: node where
  "fs_shell_name =
     Dir rwx [(''proj'', Dir rwx
       [(''a$(rm -r dist)'', Dir rwx [(''node_modules'', Dir rwx [(''index.js'', File 2048)])]),
        (''dist'', Dir rwx [(''bundle.js'', File 1024)])])]"

text \<open>
  What \<open>/bin/sh\<close> does in the working directory \<open>/proj\<close> with the command that
  \<open>getDirSize\<close> builds for \<open>/proj/a$(rm -r dist)/node_modules\<close>: the command
  substitution runs \<open>rm -r dist\<close>, which removes \<open>/proj/dist\<close>, and puts nothing in its
  place, so \<open>du\<close> is asked for \<open>/proj/a/node_modules\<close>, does not find it and fails. For
  \<open>/proj/dist\<close> the command has no such part: \<open>du\<close> prints 4 kilobytes while the
  directory is there and fails once it is gone.
\<close>

definition sh_in_proj :: exec where
  "sh_in_proj command fs =
     (if command = du_command ''/proj/a$(rm -r dist)/node_modules''
        then (None, snd (rmSync fs ''/proj/dist''))
      else if command = du_command ''/proj/dist''
        then (case lstatSync fs ''/proj/dist'' of Inr n \<Rightarrow> (Some 4, fs) | Inl e \<Rightarrow> (None, fs))
      else (None, fs))"

text \<open>The same project once \<open>/proj/dist\<close> is gone.\<close>

definition fs_shell_name_without_dist :: node where
  "fs_shell_name_without_dist =
     Dir rwx [(''proj'', Dir rwx
       [(''a$(rm -r dist)'', Dir rwx [(''node_modules'', Dir rwx [(''index.js'', File 2048)])])])]"

definition dry_env :: env where
  "dry_env = \<lparr>cwd = ''/proj'', win32 = False, execSync = sh_in_proj, answer = ''n''\<rparr>"

definition dry_argv :: "string list" where
  "dry_argv = [''node'', ''free-dev-space'', ''.'', ''--dry-run'']"

section \<open>How the walker reaches a record\<close>

text \<open>
  A record \<open>r\<close> is traced from the directory with components \<open>ds\<close> when its path is
  \<open>ds\<close> followed by directories \<open>ms\<close> the walker went through (none a target name,
  none skipped) and a last name \<open>m\<close> that the matcher accepted there.
\<close>

definition traced :: "(string \<Rightarrow> errno option) \<Rightarrow> string list \<Rightarrow> MatchRecord \<Rightarrow> bool" where
  "traced acc ds r \<longleftrightarrow>
     (\<exists>ms m. r_path r = abs_path (ds @ ms @ [m]) \<and> r_name r = m
        \<and> list_all proper_name (ms @ [m])
        \<and> list_all (\<lambda>x. x \<notin> set TARGET_NAMES \<and> x \<notin> set SKIP_DIRS) ms
        \<and> m \<notin> set SKIP_DIRS
        \<and> isTargetMatch acc m (abs_path (ds @ ms)))"

section \<open>Paths: facts\<close>

lemma split_sep_append: "sep \<notin> set x \<Longrightarrow> split_sep (x @ sep # r) = x # split_sep r"
  by (induction x) auto

lemma split_sep_plain: "sep \<notin> set x \<Longrightarrow> split_sep x = [x]"
  by (induction x) auto

lemma join_sep_snoc: "cs \<noteq> [] \<Longrightarrow> join_sep (cs @ [b]) = join_sep cs @ sep # b"
  by (induction cs rule: join_sep.induct) auto

lemma split_join_sep:
  "cs \<noteq> [] \<Longrightarrow> list_all (\<lambda>c. sep \<notin> set c) cs \<Longrightarrow> split_sep (join_sep cs) = cs"
  by (induction cs rule: join_sep.induct) (auto simp: split_sep_append split_sep_plain)

lemma proper_name_no_sep: "list_all proper_name cs \<Longrightarrow> list_all (\<lambda>c. sep \<notin> set c) cs"
  by (induction cs) (auto simp: proper_name_def)

lemma split_abs_path:
  "list_all proper_name cs \<Longrightarrow> split_sep (abs_path cs) = [] # (if cs = [] then [[]] else cs)"
  by (simp add: abs_path_def split_join_sep proper_name_no_sep)

lemma normalizeString_proper:
  "list_all proper_name cs \<Longrightarrow> normalizeString b res cs = res @ cs"
  by (induction cs arbitrary: res) (auto simp: proper_name_def)

lemma path_components_abs_path:
  "list_all proper_name cs \<Longrightarrow> path_components (abs_path cs) = cs"
  by (simp add: path_components_def split_abs_path normalizeString_proper)

lemma join_sep_eq_Nil: "list_all proper_name cs \<Longrightarrow> join_sep cs = [] \<longleftrightarrow> cs = []"
  by (induction cs rule: join_sep.induct) (auto simp: proper_name_def)

lemma join_abs_path:
  assumes "list_all proper_name cs" "proper_name n"
  shows "join (abs_path cs) n = abs_path (cs @ [n])"
proof -
  have n: "n \<noteq> []" "sep \<notin> set n" using assms(2) by (auto simp: proper_name_def)
  have all: "list_all proper_name (cs @ [n])" using assms by simp
  have last_n: "last n \<noteq> sep" using n by (metis last_in_set)
  have sp: "split_sep (abs_path cs @ sep # n) = [] # (if cs = [] then [[]] else cs) @ [n]"
  proof (cases "cs = []")
    case True
    then show ?thesis using n by (simp add: abs_path_def split_sep_plain)
  next
    case False
    have "abs_path cs @ sep # n = abs_path (cs @ [n])"
      using False by (simp add: abs_path_def join_sep_snoc)
    then show ?thesis using split_abs_path[OF all] False by simp
  qed
  have ns: "normalizeString False [] (split_sep (abs_path cs @ sep # n)) = cs @ [n]"
    using normalizeString_proper[OF all, of False "[]"] assms(2)
    by (simp add: sp proper_name_def)
  have q: "join_sep (cs @ [n]) \<noteq> []" using join_sep_eq_Nil[OF all] by simp
  define joined where "joined = abs_path cs @ sep # n"
  have j1: "joined \<noteq> []" "isAbsolute joined" "last joined \<noteq> sep"
    using n last_n by (simp_all add: joined_def isAbsolute_def abs_path_def)
  have j2: "join (abs_path cs) n = normalize joined"
    using n by (simp add: join_def joined_def abs_path_def)
  have "normalize joined = abs_path (cs @ [n])"
    using j1 q ns unfolding joined_def[symmetric]
    by (simp add: normalize_def Let_def abs_path_def)
  then show ?thesis using j2 by simp
qed

text \<open>\<open>path.resolve\<close> always returns an absolute path of proper components: the root
  path that \<open>main\<close> hands to \<open>scan\<close> has the form the theorems below ask for.\<close>

lemma split_sep_no_sep: "list_all (\<lambda>x. sep \<notin> set x) (split_sep s)"
  by (induction s) (auto split: list.splits)

lemma normalizeString_False_proper:
  "list_all proper_name res \<Longrightarrow> list_all (\<lambda>x. sep \<notin> set x) segs \<Longrightarrow>
   list_all proper_name (normalizeString False res segs)"
proof (induction segs arbitrary: res)
  case Nil
  then show ?case by simp
next
  case (Cons s segs)
  have segs: "list_all (\<lambda>x. sep \<notin> set x) segs" and s: "sep \<notin> set s"
    using Cons.prems(2) by simp_all
  have b: "list_all proper_name (butlast res)"
    using Cons.prems(1) by (auto simp: list_all_iff dest: in_set_butlastD)
  consider "s = [] \<or> s = ''.''" | "s = ''..''" | "proper_name s"
    using s by (auto simp: proper_name_def)
  then show ?case
  proof cases
    case 1
    then show ?thesis using Cons.IH[OF Cons.prems(1) segs] by auto
  next
    case 2
    then show ?thesis
      using Cons.IH[OF Cons.prems(1) segs] Cons.IH[OF b segs] by simp
  next
    case 3
    then have "list_all proper_name (res @ [s])" using Cons.prems(1) by simp
    from Cons.IH[OF this segs] 3 show ?thesis by (simp add: proper_name_def)
  qed
qed

lemma resolve_is_abs_path:
  "\<exists>ds. list_all proper_name ds \<and> resolve wd p = abs_path ds"
proof -
  define q where "q = (if isAbsolute p then p else if p = [] then wd else wd @ sep # p)"
  have "list_all proper_name (normalizeString False [] (split_sep q))"
    using normalizeString_False_proper[OF _ split_sep_no_sep, of "[]" q] by simp
  moreover have "resolve wd p = abs_path (normalizeString False [] (split_sep q))"
    by (simp add: resolve_def abs_path_def q_def)
  ultimately show ?thesis by blast
qed

lemma isTargetMatch_build:
  "isTargetMatch acc ''build'' d =
     (let parts = split_sep d; len = length parts in
      len \<ge> 2 \<and> parts ! (len - 1) = ''app'' \<and> parts ! (len - 2) = ''android'')"
  by (simp add: isTargetMatch_def TARGETS_def Let_def)

lemma isTargetMatch_loop_name:
  "isTargetMatch_loop acc ts n d \<Longrightarrow> n \<in> name ` set ts"
  by (induction ts) (auto split: if_splits)

lemma isTargetMatch_known: "isTargetMatch acc n d \<Longrightarrow> n \<in> set TARGET_NAMES"
  unfolding isTargetMatch_def TARGET_NAMES_def
  by (drule isTargetMatch_loop_name) simp

lemma isTargetMatch_loop_unique:
  "distinct (map name ts) \<Longrightarrow> t \<in> set ts \<Longrightarrow>
   isTargetMatch_loop acc ts (name t) d = isTargetMatch_loop acc [t] (name t) d"
proof (induction ts)
  case Nil
  then show ?case by simp
next
  case (Cons a ts)
  show ?case
  proof (cases "a = t")
    case True
    have "name t \<notin> name ` set ts" using Cons.prems(1) True by auto
    then have "\<not> isTargetMatch_loop acc ts (name t) d"
      using isTargetMatch_loop_name by blast
    then show ?thesis using True by (simp split: matchKind.splits option.splits)
  next
    case False
    then have "t \<in> set ts" using Cons.prems(2) by simp
    moreover have "name a \<noteq> name t" using Cons.prems(1) \<open>t \<in> set ts\<close> by force
    ultimately show ?thesis using Cons by simp
  qed
qed

lemma distinct_TARGETS: "distinct (map name TARGETS)"
  by (simp add: TARGETS_def)

lemma isTargetMatch_single:
  "t \<in> set TARGETS \<Longrightarrow> isTargetMatch acc (name t) d = isTargetMatch_loop acc [t] (name t) d"
  unfolding isTargetMatch_def by (rule isTargetMatch_loop_unique[OF distinct_TARGETS])

section \<open>The matcher: theorems\<close>

text \<open>
  Claim C8. A directory whose name carries the direct strategy in the target table
  (\<open>node_modules\<close>, \<open>.next\<close>, \<open>dist\<close> and the other direct entries) is matched whatever
  its parent path is and whatever the file system answers.
\<close>

theorem direct_names_always_match:
  assumes "t \<in> set TARGETS" and "match t = Direct"
  shows "isTargetMatch acc (name t) entryDir"
  using assms by (simp add: isTargetMatch_single)

theorem direct_names_always_match_witness:
  "isTargetMatch (\<lambda>p. Some EACCES) ''node_modules'' ''/home/u/proj''
   \<and> isTargetMatch (\<lambda>p. Some EACCES) ''.next'' ''/''
   \<and> isTargetMatch (\<lambda>p. Some EACCES) ''dist'' ''relative/dir/''"
  using direct_names_always_match[of "\<lparr>name = ''node_modules'', match = Direct\<rparr>" "\<lambda>p. Some EACCES" "''/home/u/proj''"]
        direct_names_always_match[of "\<lparr>name = ''.next'', match = Direct\<rparr>" "\<lambda>p. Some EACCES" "''/''"]
        direct_names_always_match[of "\<lparr>name = ''dist'', match = Direct\<rparr>" "\<lambda>p. Some EACCES" "''relative/dir/''"]
  by (simp add: TARGETS_def)

text \<open>
  Claim C7. The sibling check fails closed: for a target with the sibling strategy
  (\<open>vendor\<close>, \<open>target\<close>), whenever the existence check on the sibling path throws, with
  whatever error, the matcher returns false. The matcher returns a boolean in every
  case: the \<open>catch\<close> has no branch that throws again.
\<close>

theorem sibling_check_fails_closed:
  assumes "t \<in> set TARGETS" and "match t = Sibling s" and "acc (join entryDir s) = Some e"
  shows "\<not> isTargetMatch acc (name t) entryDir"
  using assms by (simp add: isTargetMatch_single)

lemma access_locked_Gemfile: "accessSync fs_gemfiles (join ''/locked'' ''Gemfile'') = Some EACCES"
  by code_simp
lemma access_plain_Gemfile: "accessSync fs_gemfiles (join ''/plain'' ''Gemfile'') = Some ENOENT"
  by code_simp
theorem sibling_check_fails_closed_witness:
  "accessSync fs_gemfiles (join ''/locked'' ''Gemfile'') = Some EACCES
   \<and> \<not> isTargetMatch (accessSync fs_gemfiles) ''vendor'' ''/locked''
   \<and> accessSync fs_gemfiles (join ''/plain'' ''Gemfile'') = Some ENOENT
   \<and> \<not> isTargetMatch (accessSync fs_gemfiles) ''vendor'' ''/plain''"
  using sibling_check_fails_closed[of "\<lparr>name = ''vendor'', match = Sibling ''Gemfile''\<rparr>"
           "''Gemfile''" "accessSync fs_gemfiles" "''/locked''" EACCES]
        sibling_check_fails_closed[of "\<lparr>name = ''vendor'', match = Sibling ''Gemfile''\<rparr>"
           "''Gemfile''" "accessSync fs_gemfiles" "''/plain''" ENOENT]
        access_locked_Gemfile access_plain_Gemfile
  by (simp add: TARGETS_def)

text \<open>
  Claim C4. For a candidate named \<open>build\<close> whose parent directory is the absolute path
  with components \<open>cs\<close>, the matcher returns true exactly when \<open>cs\<close> ends with
  \<open>android\<close>, \<open>app\<close>, in this order. With fewer than two components above the
  candidate, or another suffix such as \<open>backend\<close>, it returns false.
\<close>

theorem build_matches_only_under_android_app:
  assumes "list_all proper_name cs"
  shows "isTargetMatch acc ''build'' (abs_path cs) \<longleftrightarrow> (\<exists>pre. cs = pre @ [''android'', ''app''])"
proof (cases cs rule: rev_cases)
  case Nil
  then show ?thesis by (simp add: isTargetMatch_build split_abs_path)
next
  case (snoc ys y)
  note outer = snoc
  show ?thesis
  proof (cases ys rule: rev_cases)
    case Nil
    then show ?thesis using outer assms by (simp add: isTargetMatch_build split_abs_path)
  next
    case (snoc zs z)
    have "split_sep (abs_path cs) = [] # zs @ [z, y]"
      using assms outer snoc by (simp add: split_abs_path)
    then have "isTargetMatch acc ''build'' (abs_path cs) \<longleftrightarrow> (y = ''app'' \<and> z = ''android'')"
      by (simp add: isTargetMatch_build nth_append)
    then show ?thesis using outer snoc by auto
  qed
qed

theorem build_matches_only_under_android_app_witness:
  "isTargetMatch (\<lambda>p. None) ''build'' ''/home/android/app''
   \<and> \<not> isTargetMatch (\<lambda>p. None) ''build'' ''/home/backend''
   \<and> \<not> isTargetMatch (\<lambda>p. None) ''build'' ''/app''"
proof -
  have p1: "list_all proper_name [''home'', ''android'', ''app'']"
   and p2: "list_all proper_name [''home'', ''backend'']"
   and p3: "list_all proper_name [''app'']"
    by (simp_all add: proper_name_def sep_def)
  have e1: "\<exists>pre. [''home'', ''android'', ''app''] = pre @ [''android'', ''app'']"
    by (rule exI[of _ "[''home'']"]) simp
  have e2: "\<not> (\<exists>pre. [''home'', ''backend''] = pre @ [''android'', ''app''])"
    by (simp add: append_eq_Cons_conv Cons_eq_append_conv)
  have e3: "\<not> (\<exists>pre. [''app''] = pre @ [''android'', ''app''])"
    by (simp add: append_eq_Cons_conv Cons_eq_append_conv)
  show ?thesis
    using build_matches_only_under_android_app[OF p1, of "\<lambda>p. None"]
          build_matches_only_under_android_app[OF p2, of "\<lambda>p. None"]
          build_matches_only_under_android_app[OF p3, of "\<lambda>p. None"] e1 e2 e3
    by (simp add: abs_path_def sep_def)
qed

text \<open>
  Claim C2, as the code has it. For a candidate named \<open>vendor\<close> whose parent directory
  is the absolute path with components \<open>cs\<close>, the matcher returns true exactly when the
  path \<open>Gemfile\<close> inside that directory resolves, to an entry of whatever kind: the
  check is \<open>accessSync\<close> with \<open>F_OK\<close>, which tests existence and not the type. A
  directory named \<open>Gemfile\<close> satisfies it, as the counterexample below shows.
\<close>

theorem vendor_matches_iff_Gemfile_resolves:
  assumes "list_all proper_name cs"
  shows "isTargetMatch (accessSync root) ''vendor'' (abs_path cs)
           \<longleftrightarrow> (\<exists>n. lookup root (cs @ [''Gemfile'']) = Inr n)"
proof -
  have g: "proper_name ''Gemfile''" by (simp add: proper_name_def sep_def)
  have t: "\<lparr>name = ''vendor'', match = Sibling ''Gemfile''\<rparr> \<in> set TARGETS"
    by (simp add: TARGETS_def)
  have "isTargetMatch (accessSync root) ''vendor'' (abs_path cs)
          \<longleftrightarrow> accessSync root (join (abs_path cs) ''Gemfile'') = None"
    using isTargetMatch_single[OF t, of "accessSync root" "abs_path cs"]
    by (simp split: option.splits)
  also have "join (abs_path cs) ''Gemfile'' = abs_path (cs @ [''Gemfile''])"
    using join_abs_path[OF assms g] .
  also have "accessSync root (abs_path (cs @ [''Gemfile''])) = None
               \<longleftrightarrow> (\<exists>n. lookup root (cs @ [''Gemfile'']) = Inr n)"
    using assms g by (simp add: accessSync_def path_components_abs_path split: sum.splits)
  finally show ?thesis .
qed

theorem vendor_matches_iff_Gemfile_resolves_witness:
  "isTargetMatch (accessSync fs_gemfiles) ''vendor'' ''/ruby''
   \<and> lookup fs_gemfiles [''ruby'', ''Gemfile''] = Inr (File 120)
   \<and> \<not> isTargetMatch (accessSync fs_gemfiles) ''vendor'' ''/plain''
   \<and> lookup fs_gemfiles [''plain'', ''Gemfile''] = Inl ENOENT"
proof -
  have p1: "list_all proper_name [''ruby'']" and p2: "list_all proper_name [''plain'']"
    by (simp_all add: proper_name_def sep_def)
  have l1: "lookup fs_gemfiles [''ruby'', ''Gemfile''] = Inr (File 120)"
   and l2: "lookup fs_gemfiles [''plain'', ''Gemfile''] = Inl ENOENT"
    by (simp_all add: fs_gemfiles_def rwx_def)
  show ?thesis
    using vendor_matches_iff_Gemfile_resolves[OF p1, of fs_gemfiles]
          vendor_matches_iff_Gemfile_resolves[OF p2, of fs_gemfiles] l1 l2
    by (simp add: abs_path_def sep_def)
qed

text \<open>
  Claim C2 as stated fails: in \<open>fs_gemfile_dir\<close> the entry \<open>/proj/Gemfile\<close> is a
  directory, no file named \<open>Gemfile\<close> exists in \<open>/proj\<close>, and \<open>vendor\<close> is matched.
\<close>

theorem vendor_matched_beside_Gemfile_directory:
  "isTargetMatch (accessSync fs_gemfile_dir) ''vendor'' ''/proj''
   \<and> \<not> sibling_file_exists fs_gemfile_dir ''/proj'' ''Gemfile''"
  by code_simp

section \<open>The tree walker: theorems\<close>

text \<open>
  The walker is handed the node listed under a name instead of resolving the joined
  path again. Where the names of a directory are distinct, as in every file system,
  the two agree: the path of an entry resolves to the node listed with it.
\<close>

lemma lookup_in_entry:
  "distinct (map fst es) \<Longrightarrow> (n, child) \<in> set es \<Longrightarrow> lookup_in es n cs = lookup child cs"
  by (induction es) (auto simp: rev_image_eqI)

lemma lookup_entry:
  "distinct (map fst es) \<Longrightarrow> (n, child) \<in> set es \<Longrightarrow> searchable m \<Longrightarrow>
   lookup (Dir m es) (n # cs) = lookup child cs"
  by (simp add: lookup_in_entry)

lemma traced_here:
  assumes "list_all proper_name ds" "proper_name e" "e \<notin> set SKIP_DIRS"
    and "isTargetMatch acc e (abs_path ds)"
  shows "traced acc ds \<lparr>r_name = e, r_path = join (abs_path ds) e, r_size = 0\<rparr>"
  unfolding traced_def
  using assms by (intro exI[of _ "[]"] exI[of _ e]) (simp add: join_abs_path)

lemma traced_step:
  assumes "traced acc (ds @ [e]) r" "proper_name e" "e \<notin> set TARGET_NAMES" "e \<notin> set SKIP_DIRS"
  shows "traced acc ds r"
proof -
  from assms(1) obtain ms m where h:
    "r_path r = abs_path ((ds @ [e]) @ ms @ [m])" "r_name r = m"
    "list_all proper_name (ms @ [m])"
    "list_all (\<lambda>x. x \<notin> set TARGET_NAMES \<and> x \<notin> set SKIP_DIRS) ms"
    "m \<notin> set SKIP_DIRS" "isTargetMatch acc m (abs_path ((ds @ [e]) @ ms))"
    unfolding traced_def by blast
  show ?thesis
    unfolding traced_def
    using h assms(2-4) by (intro exI[of _ "e # ms"] exI[of _ m]) simp
qed

lemma walk_traced:
  "proper_names node \<Longrightarrow> list_all proper_name ds \<Longrightarrow> dir = abs_path ds \<Longrightarrow>
     r \<in> set (walk acc reach dir node results) \<Longrightarrow> r \<in> set results \<or> traced acc ds r"
  "proper_entries es \<Longrightarrow> list_all proper_name ds \<Longrightarrow> dir = abs_path ds \<Longrightarrow>
     r \<in> set (walk_loop acc reach dir es results) \<Longrightarrow> r \<in> set results \<or> traced acc ds r"
proof (induction acc reach dir node results and acc reach dir es results
        arbitrary: ds r and ds r rule: walk_walk_loop.induct)
  case (1 acc reach dir sz results)
  then show ?case by simp
next
  case (2 acc reach dir results)
  then show ?case by simp
next
  case (3 acc reach dir t results)
  then show ?case by simp
next
  case (4 acc reach dir m entries results)
  then show ?case by (simp split: if_splits)
next
  case (5 acc reach dir results)
  then show ?case by simp
next
  case (6 acc reach dir ename entry entries results)
  have pe: "proper_name ename" and pc: "proper_names entry" and pes: "proper_entries entries"
    using "6.prems"(1) by simp_all
  note ds = "6.prems"(2) and dir = "6.prems"(3)
  have fp: "join dir ename = abs_path (ds @ [ename])"
    using join_abs_path[OF ds pe] dir by simp
  show ?case
  proof (cases "\<not> isDirectory entry \<or> ename \<in> set SKIP_DIRS")
    case True
    then show ?thesis
      using "6.IH"(1,2) "6.prems" pes by (auto split: if_splits)
  next
    case False
    then have d: "isDirectory entry" and ns: "ename \<notin> set SKIP_DIRS" by simp_all
    show ?thesis
    proof (cases "isTargetMatch acc ename dir")
      case True
      let ?new = "\<lparr>r_name = ename, r_path = join dir ename, r_size = 0\<rparr>"
      have "r \<in> set (walk_loop acc reach dir entries (results @ [?new]))"
        using "6.prems"(4) d ns True by (simp add: Let_def)
      then have "r \<in> set (results @ [?new]) \<or> traced acc ds r"
        using "6.IH"(3)[OF _ ns refl True pes ds dir] d by simp
      moreover have "traced acc ds ?new"
        using traced_here[OF ds pe ns] True dir by simp
      ultimately show ?thesis by auto
    next
      case nomatch: False
      show ?thesis
      proof (cases "ename \<in> set TARGET_NAMES")
        case True
        then have "r \<in> set (walk_loop acc reach dir entries results)"
          using "6.prems"(4) d ns nomatch by (simp add: Let_def)
        then show ?thesis
          using "6.IH"(4)[OF _ ns refl nomatch True pes ds dir] d by simp
      next
        case False
        let ?inner = "walk acc reach (join dir ename) entry results"
        have "r \<in> set (walk_loop acc reach dir entries ?inner)"
          using "6.prems"(4) d ns nomatch False by (simp add: Let_def)
        then have "r \<in> set ?inner \<or> traced acc ds r"
          using "6.IH"(6)[OF _ ns refl nomatch False pes ds dir] d by simp
        moreover have "r \<in> set ?inner \<Longrightarrow> r \<in> set results \<or> traced acc (ds @ [ename]) r"
          using "6.IH"(5)[OF _ ns refl nomatch False pc _ fp] d ds pe by simp
        ultimately show ?thesis
          using traced_step[OF _ pe False ns] by blast
      qed
    qed
  qed
qed


lemma lookup_proper:
  "proper_names n \<Longrightarrow> lookup n cs = Inr n' \<Longrightarrow> proper_names n'"
  "proper_entries es \<Longrightarrow> lookup_in es c cs = Inr n' \<Longrightarrow> proper_names n'"
  by (induction n cs and es c cs rule: lookup_lookup_in.induct) (auto split: if_splits)

lemma scan_traced:
  assumes "proper_names root" "list_all proper_name ds" "r \<in> set (scan root (abs_path ds))"
  shows "traced (accessSync root) ds r"
proof -
  have "\<exists>n. lookup root ds = Inr n
          \<and> r \<in> set (walk (accessSync root) True (abs_path ds) n [])"
    using assms(2,3)
    by (cases "lookup root ds") (simp_all add: scan_def path_components_abs_path)
  then obtain n where n: "lookup root ds = Inr n"
    and r: "r \<in> set (walk (accessSync root) True (abs_path ds) n [])"
    by blast
  have "proper_names n" using lookup_proper(1)[OF assms(1) n] .
  from walk_traced(1)[OF this assms(2) refl r] show ?thesis by simp
qed

lemma traced_components:
  assumes "traced acc ds r" "list_all proper_name ds"
  obtains ms m where "path_components (r_path r) = ds @ ms @ [m]" "r_name r = m"
    "list_all (\<lambda>x. x \<notin> set TARGET_NAMES \<and> x \<notin> set SKIP_DIRS) ms"
    "m \<notin> set SKIP_DIRS" "isTargetMatch acc m (abs_path (ds @ ms))"
proof -
  from assms(1) obtain ms m where h:
    "r_path r = abs_path (ds @ ms @ [m])" "r_name r = m"
    "list_all proper_name (ms @ [m])"
    "list_all (\<lambda>x. x \<notin> set TARGET_NAMES \<and> x \<notin> set SKIP_DIRS) ms"
    "m \<notin> set SKIP_DIRS" "isTargetMatch acc m (abs_path (ds @ ms))"
    unfolding traced_def by blast
  have "list_all proper_name (ds @ ms @ [m])" using assms(2) h(3) by simp
  then have "path_components (r_path r) = ds @ ms @ [m]"
    using h(1) by (simp only: path_components_abs_path)
  then show thesis using that h by blast
qed

lemma scan_fs_projects:
  "scan fs_projects ''/proj'' =
     [\<lparr>r_name = ''node_modules'', r_path = ''/proj/node_modules'', r_size = 0\<rparr>,
      \<lparr>r_name = ''Pods'', r_path = ''/proj/ios/Pods'', r_size = 0\<rparr>,
      \<lparr>r_name = ''target'', r_path = ''/proj/rustcrate/target'', r_size = 0\<rparr>,
      \<lparr>r_name = ''node_modules'', r_path = ''/proj/.svn/node_modules'', r_size = 0\<rparr>]"
  by code_simp

lemma proper_fs_projects: "proper_names fs_projects"
  by code_simp

text \<open>
  Claim C1. In a file system whose entry names are names a listing can return, scanned
  from an absolute root path, no record's path lies strictly below another record's
  path; and no record lies inside a directory named \<open>node_modules\<close> below the root, so
  a \<open>node_modules\<close> nested in a matched \<open>node_modules\<close> is never reported.
\<close>

theorem scan_never_reports_nested_matches:
  assumes "proper_names root" and "list_all proper_name ds"
  shows "(\<forall>r1\<in>set (scan root (abs_path ds)). \<forall>r2\<in>set (scan root (abs_path ds)).
            \<not> strict_descendant (r_path r1) (r_path r2))
       \<and> (\<forall>r\<in>set (scan root (abs_path ds)).
            ''node_modules'' \<notin> set (butlast (drop (length ds) (path_components (r_path r)))))"
proof (intro conjI ballI)
  fix r1 r2
  assume r1: "r1 \<in> set (scan root (abs_path ds))" and r2: "r2 \<in> set (scan root (abs_path ds))"
  let ?acc = "accessSync root"
  from scan_traced[OF assms r1] obtain ms1 m1 where
    c1: "path_components (r_path r1) = ds @ ms1 @ [m1]"
    and i1: "list_all (\<lambda>x. x \<notin> set TARGET_NAMES \<and> x \<notin> set SKIP_DIRS) ms1"
    by (rule traced_components[OF _ assms(2)])
  from scan_traced[OF assms r2] obtain ms2 m2 where
    c2: "path_components (r_path r2) = ds @ ms2 @ [m2]"
    and t2: "isTargetMatch ?acc m2 (abs_path (ds @ ms2))"
    by (rule traced_components[OF _ assms(2)])
  show "\<not> strict_descendant (r_path r1) (r_path r2)"
  proof
    assume "strict_descendant (r_path r1) (r_path r2)"
    then have "strict_prefix (ms2 @ [m2]) (ms1 @ [m1])"
      by (simp add: strict_descendant_def c1 c2 strict_prefix_def)
    then obtain zs where zs: "ms1 @ [m1] = (ms2 @ [m2]) @ zs" "zs \<noteq> []"
      by (auto simp: strict_prefix_def prefix_def)
    then have "butlast (ms1 @ [m1]) = (ms2 @ [m2]) @ butlast zs"
      by (simp add: butlast_append)
    then have "m2 \<in> set ms1" by simp
    then have "m2 \<notin> set TARGET_NAMES" using i1 by (simp add: list_all_iff)
    then show False using isTargetMatch_known[OF t2] by simp
  qed
next
  fix r
  assume r: "r \<in> set (scan root (abs_path ds))"
  from scan_traced[OF assms r] obtain ms m where
    c: "path_components (r_path r) = ds @ ms @ [m]"
    and i: "list_all (\<lambda>x. x \<notin> set TARGET_NAMES \<and> x \<notin> set SKIP_DIRS) ms"
    by (rule traced_components[OF _ assms(2)])
  have "''node_modules'' \<in> set TARGET_NAMES" by (simp add: TARGET_NAMES_def TARGETS_def)
  then have "''node_modules'' \<notin> set ms" using i by (auto simp: list_all_iff)
  then show "''node_modules'' \<notin> set (butlast (drop (length ds) (path_components (r_path r))))"
    by (simp add: c butlast_append)
qed

theorem scan_never_reports_nested_matches_witness:
  "proper_names fs_projects
   \<and> list_all (\<lambda>r1. list_all (\<lambda>r2. \<not> strict_descendant (r_path r1) (r_path r2))
                 (scan fs_projects ''/proj'')) (scan fs_projects ''/proj'')
   \<and> list_all (\<lambda>r. r_path r \<noteq> ''/proj/node_modules/a/node_modules'') (scan fs_projects ''/proj'')"
proof -
  have p: "list_all proper_name [''proj'']" by (simp add: proper_name_def sep_def)
  have a: "abs_path [''proj''] = ''/proj''" by (simp add: abs_path_def sep_def)
  have "list_all (\<lambda>r. r_path r \<noteq> ''/proj/node_modules/a/node_modules'') (scan fs_projects ''/proj'')"
    by (simp add: scan_fs_projects)
  then show ?thesis
    using scan_never_reports_nested_matches[OF proper_fs_projects p] proper_fs_projects
    by (simp add: a list_all_iff)
qed

text \<open>
  Claim C5. Take a directory \<open>n\<close> below the root whose name is a known target name and
  which fails the matcher's check in its parent directory (a \<open>target\<close> without
  \<open>Cargo.toml\<close> beside it). Then no record's path is that directory or lies below it:
  the walker records nothing for it and never reports anything inside it.
\<close>

theorem scan_never_enters_unmatched_target_names:
  assumes "proper_names root" and "list_all proper_name ds" and "list_all proper_name (cs @ [n])"
    and "n \<in> set TARGET_NAMES"
    and "\<not> isTargetMatch (accessSync root) n (abs_path (ds @ cs))"
  shows "\<forall>r\<in>set (scan root (abs_path ds)).
           \<not> at_or_below (r_path r) (abs_path (ds @ cs @ [n]))"
proof
  fix r
  assume r: "r \<in> set (scan root (abs_path ds))"
  from scan_traced[OF assms(1,2) r] obtain ms m where
    c: "path_components (r_path r) = ds @ ms @ [m]"
    and i: "list_all (\<lambda>x. x \<notin> set TARGET_NAMES \<and> x \<notin> set SKIP_DIRS) ms"
    and t: "isTargetMatch (accessSync root) m (abs_path (ds @ ms))"
    by (rule traced_components[OF _ assms(2)])
  have "list_all proper_name (ds @ cs @ [n])" using assms(2,3) by simp
  then have d: "path_components (abs_path (ds @ cs @ [n])) = ds @ cs @ [n]"
    by (simp only: path_components_abs_path)
  show "\<not> at_or_below (r_path r) (abs_path (ds @ cs @ [n]))"
  proof
    assume "at_or_below (r_path r) (abs_path (ds @ cs @ [n]))"
    then have "prefix (cs @ [n]) (ms @ [m])"
      by (simp add: at_or_below_def c d)
    then consider "cs @ [n] = ms @ [m]" | "prefix (cs @ [n]) ms"
      by (auto simp: prefix_snoc)
    then show False
    proof cases
      case 1
      then have "cs = ms" "n = m" by simp_all
      then show False using t assms(5) by simp
    next
      case 2
      then have "n \<in> set ms" by (auto simp: prefix_def)
      then have "n \<notin> set TARGET_NAMES" using i by (simp add: list_all_iff)
      then show False using assms(4) by simp
    qed
  qed
qed

lemma target_unmatched_in_backend:
  "\<not> isTargetMatch (accessSync fs_projects) ''target'' ''/proj/backend''"
  by code_simp

theorem scan_never_enters_unmatched_target_names_witness:
  "''target'' \<in> set TARGET_NAMES
   \<and> \<not> isTargetMatch (accessSync fs_projects) ''target'' ''/proj/backend''
   \<and> lookup fs_projects [''proj'', ''backend'', ''target'', ''x'', ''node_modules''] = Inr (Dir rwx [])
   \<and> list_all (\<lambda>r. \<not> at_or_below (r_path r) ''/proj/backend/target'')
        (scan fs_projects ''/proj'')"
proof -
  have p: "list_all proper_name [''proj'']" "list_all proper_name ([''backend''] @ [''target''])"
    by (simp_all add: proper_name_def sep_def)
  have a: "abs_path [''proj''] = ''/proj''" "abs_path ([''proj''] @ [''backend'']) = ''/proj/backend''"
    "abs_path ([''proj''] @ [''backend''] @ [''target'']) = ''/proj/backend/target''"
    by (simp_all add: abs_path_def sep_def)
  have k: "''target'' \<in> set TARGET_NAMES" by (simp add: TARGET_NAMES_def TARGETS_def)
  have l: "lookup fs_projects [''proj'', ''backend'', ''target'', ''x'', ''node_modules''] = Inr (Dir rwx [])"
    by (simp add: fs_projects_def rwx_def)
  have u: "\<not> isTargetMatch (accessSync fs_projects) ''target'' (abs_path ([''proj''] @ [''backend'']))"
    unfolding a by (rule target_unmatched_in_backend)
  show ?thesis
    using scan_never_enters_unmatched_target_names[OF proper_fs_projects p k u]
      k l target_unmatched_in_backend
    by (simp only: a list_all_iff) simp
qed

lemma not_known_not_matched: "n \<notin> set TARGET_NAMES \<Longrightarrow> \<not> isTargetMatch acc n d"
  using isTargetMatch_known by blast

lemma node_modules_matched: "isTargetMatch acc ''node_modules'' d"
  by (simp add: isTargetMatch_def TARGETS_def)

text \<open>
  Claim C10. The skip set holds \<open>.git\<close> and nothing else, and the walker behaves so:
  no record's path has a component \<open>.git\<close> below the root, and an entry named \<open>.git\<close>
  is passed over whatever it is. Every directory entry with another name goes through
  the matcher, and when its name is not a target name it is walked into, whatever the
  name is; a \<open>node_modules\<close> inside it is recorded. \<open>.svn\<close> and \<open>.hg\<close> are such names.
\<close>

theorem only_git_is_skipped:
  assumes "proper_names root" and "list_all proper_name ds"
  shows "set SKIP_DIRS = {''.git''}
       \<and> (\<forall>r\<in>set (scan root (abs_path ds)).
             ''.git'' \<notin> set (drop (length ds) (path_components (r_path r))))
       \<and> walk_loop acc reach dir ((''.git'', entry) # entries) results
           = walk_loop acc reach dir entries results
       \<and> (\<forall>n. n \<noteq> ''.git'' \<longrightarrow>
             walk_loop acc reach dir ((n, Dir m es) # entries) results
               = (if isTargetMatch acc n dir then
                    walk_loop acc reach dir entries
                      (results @ [\<lparr>r_name = n, r_path = join dir n, r_size = 0\<rparr>])
                  else if n \<in> set TARGET_NAMES then walk_loop acc reach dir entries results
                  else walk_loop acc reach dir entries
                         (walk acc reach (join dir n) (Dir m es) results)))
       \<and> (\<forall>n. n \<noteq> ''.git'' \<longrightarrow> n \<notin> set TARGET_NAMES \<longrightarrow>
             walk_loop acc reach dir ((n, Dir m es) # entries) results
               = walk_loop acc reach dir entries (walk acc reach (join dir n) (Dir m es) results))
       \<and> (\<forall>n. proper_name n \<longrightarrow> n \<noteq> ''.git'' \<longrightarrow> n \<notin> set TARGET_NAMES \<longrightarrow>
             walk acc True (abs_path ds) (Dir rwx [(n, Dir rwx [(''node_modules'', Dir rwx [])])]) []
               = [\<lparr>r_name = ''node_modules'', r_path = abs_path (ds @ [n, ''node_modules'']),
                    r_size = 0\<rparr>])
       \<and> ''.svn'' \<notin> set TARGET_NAMES \<and> ''.hg'' \<notin> set TARGET_NAMES"
proof (intro conjI ballI allI impI)
  show "set SKIP_DIRS = {''.git''}" by (simp add: SKIP_DIRS_def)
next
  fix r
  assume r: "r \<in> set (scan root (abs_path ds))"
  from scan_traced[OF assms(1,2) r] obtain ms m where
    c: "path_components (r_path r) = ds @ ms @ [m]"
    and i: "list_all (\<lambda>x. x \<notin> set TARGET_NAMES \<and> x \<notin> set SKIP_DIRS) ms"
    and s: "m \<notin> set SKIP_DIRS"
    by (rule traced_components[OF _ assms(2)])
  have "''.git'' \<notin> set ms" using i by (auto simp: list_all_iff SKIP_DIRS_def)
  moreover have "m \<noteq> ''.git''" using s by (simp add: SKIP_DIRS_def)
  ultimately show "''.git'' \<notin> set (drop (length ds) (path_components (r_path r)))"
    by (simp add: c)
next
  show "walk_loop acc reach dir ((''.git'', entry) # entries) results
          = walk_loop acc reach dir entries results"
    by (simp add: SKIP_DIRS_def)
next
  fix n :: string
  assume "n \<noteq> ''.git''"
  then have "n \<notin> set SKIP_DIRS" by (simp add: SKIP_DIRS_def)
  then show "walk_loop acc reach dir ((n, Dir m es) # entries) results
          = (if isTargetMatch acc n dir then
               walk_loop acc reach dir entries
                 (results @ [\<lparr>r_name = n, r_path = join dir n, r_size = 0\<rparr>])
             else if n \<in> set TARGET_NAMES then walk_loop acc reach dir entries results
             else walk_loop acc reach dir entries
                    (walk acc reach (join dir n) (Dir m es) results))"
    by (simp add: Let_def)
next
  fix n :: string
  assume "n \<noteq> ''.git''" and k: "n \<notin> set TARGET_NAMES"
  then have "n \<notin> set SKIP_DIRS" by (simp add: SKIP_DIRS_def)
  then show "walk_loop acc reach dir ((n, Dir m es) # entries) results
          = walk_loop acc reach dir entries (walk acc reach (join dir n) (Dir m es) results)"
    using k not_known_not_matched[OF k] by (simp add: Let_def)
next
  fix n :: string
  assume pn: "proper_name n" and "n \<noteq> ''.git''" and k: "n \<notin> set TARGET_NAMES"
  then have s: "n \<notin> set SKIP_DIRS" by (simp add: SKIP_DIRS_def)
  have pm: "proper_name ''node_modules''" by (simp add: proper_name_def sep_def)
  have j1: "join (abs_path ds) n = abs_path (ds @ [n])"
    using join_abs_path[OF assms(2) pn] .
  have "list_all proper_name (ds @ [n])" using assms(2) pn by simp
  from join_abs_path[OF this pm]
  have j2: "join (abs_path (ds @ [n])) ''node_modules'' = abs_path (ds @ [n, ''node_modules''])"
    by simp
  have g: "''node_modules'' \<notin> set SKIP_DIRS" by (simp add: SKIP_DIRS_def)
  show "walk acc True (abs_path ds) (Dir rwx [(n, Dir rwx [(''node_modules'', Dir rwx [])])]) []
          = [\<lparr>r_name = ''node_modules'', r_path = abs_path (ds @ [n, ''node_modules'']),
               r_size = 0\<rparr>]"
    using k s not_known_not_matched[OF k] g
    by (simp add: Let_def rwx_def j1 j2 node_modules_matched)
next
  show "''.svn'' \<notin> set TARGET_NAMES" by (simp add: TARGET_NAMES_def TARGETS_def)
next
  show "''.hg'' \<notin> set TARGET_NAMES" by (simp add: TARGET_NAMES_def TARGETS_def)
qed

lemma scan_fs_projects_svn:
  "\<lparr>r_name = ''node_modules'', r_path = ''/proj/.svn/node_modules'', r_size = 0\<rparr>
     \<in> set (scan fs_projects ''/proj'')"
  by (simp add: scan_fs_projects)

theorem only_git_is_skipped_witness:
  "proper_names fs_projects
   \<and> lookup fs_projects [''proj'', ''.git'', ''node_modules''] = Inr (Dir rwx [])
   \<and> list_all (\<lambda>r. ''.git'' \<notin> set (drop 1 (path_components (r_path r))))
        (scan fs_projects ''/proj'')
   \<and> \<lparr>r_name = ''node_modules'', r_path = ''/proj/.svn/node_modules'', r_size = 0\<rparr>
        \<in> set (scan fs_projects ''/proj'')
   \<and> walk (\<lambda>p. None) True ''/proj''
        (Dir rwx [(''CVS'', Dir rwx [(''node_modules'', Dir rwx [])])]) []
       = [\<lparr>r_name = ''node_modules'', r_path = ''/proj/CVS/node_modules'', r_size = 0\<rparr>]"
proof -
  have p: "list_all proper_name [''proj'']" by (simp add: proper_name_def sep_def)
  have a: "abs_path [''proj''] = ''/proj''"
    "abs_path ([''proj''] @ [''CVS'', ''node_modules'']) = ''/proj/CVS/node_modules''"
    by (simp_all add: abs_path_def sep_def)
  have l: "lookup fs_projects [''proj'', ''.git'', ''node_modules''] = Inr (Dir rwx [])"
    by (simp add: fs_projects_def rwx_def)
  note t = only_git_is_skipped[OF proper_fs_projects p, of "\<lambda>p. None" True "[]" "File 0" "[]" "[]" rwx "[]"]
  have g: "list_all (\<lambda>r. ''.git'' \<notin> set (drop 1 (path_components (r_path r))))
          (scan fs_projects ''/proj'')"
    using t by (simp only: a list_all_iff) simp
  have c: "proper_name ''CVS''" "''CVS'' \<noteq> ''.git''" "''CVS'' \<notin> set TARGET_NAMES"
    by (simp_all add: proper_name_def sep_def TARGET_NAMES_def TARGETS_def)
  have "walk (\<lambda>p. None) True (abs_path [''proj''])
          (Dir rwx [(''CVS'', Dir rwx [(''node_modules'', Dir rwx [])])]) []
        = [\<lparr>r_name = ''node_modules'', r_path = abs_path ([''proj''] @ [''CVS'', ''node_modules'']),
             r_size = 0\<rparr>]"
    using t c by blast
  then have w: "walk (\<lambda>p. None) True ''/proj''
        (Dir rwx [(''CVS'', Dir rwx [(''node_modules'', Dir rwx [])])]) []
       = [\<lparr>r_name = ''node_modules'', r_path = ''/proj/CVS/node_modules'', r_size = 0\<rparr>]"
    by (simp only: a)
  show ?thesis
    using proper_fs_projects l g scan_fs_projects_svn w by simp
qed

section \<open>Numbers: facts\<close>

lemma round_double_exact: "n \<le> 2 ^ 53 \<Longrightarrow> round_double n = n"
  by (simp add: round_double_def)

lemma js_add_exact: "a + b \<le> 2 ^ 53 \<Longrightarrow> js_add a b = a + b"
  by (simp add: js_add_def round_double_exact)

text \<open>Above \<open>2 ^ 53\<close> the sum is rounded: \<open>2 ^ 53 + 1\<close> is no double, and the tie goes
  to the even neighbour.\<close>

lemma js_add_rounds: "js_add (2 ^ 53) 1 = 2 ^ 53" "js_add (2 ^ 53) 3 = 2 ^ 53 + 4"
  by (simp_all add: js_add_def round_double_def Let_def bit_length.simps)

section \<open>Deletion: theorems\<close>

lemma rm_vanished:
  "lstat n cs = Inl ENOENT \<Longrightarrow> rm_at n cs = (None, n)"
  "lstat_in es c cs = Inl ENOENT \<Longrightarrow> rm_in m es c cs = (None, es)"
proof (induction n cs and m es c cs rule: rm_at_rm_in.induct)
  case (1 sz cs)
  then show ?case by (cases cs) simp_all
next
  case (2 cs)
  then show ?case by simp
next
  case (3 t cs)
  then show ?case by (cases cs) simp_all
next
  case (4 m es)
  then show ?case by simp
next
  case (5 m es c cs)
  then show ?case by (simp split: if_splits)
next
  case (6 m c cs)
  then show ?case by simp
next
  case (7 m n child es c cs)
  then show ?case by (cases "n = c"; cases cs) simp_all
qed

lemma rmSync_vanished: "lstatSync fs p = Inl ENOENT \<Longrightarrow> rmSync fs p = (None, fs)"
  by (simp add: lstatSync_def rmSync_def rm_vanished(1))

lemma lstat_gone: "lstatSync fs_artifacts ''/proj/gone/node_modules'' = Inl ENOENT"
  by code_simp

lemma lstat_old: "lstatSync fs_artifacts ''/proj/old/node_modules'' = Inl ENOENT"
  by code_simp

text \<open>
  Claim C3, as the code has it. When the path of the record that \<open>deleteResults\<close>
  reaches no longer exists, the forced removal returns without an error and leaves the
  file system as it is; the loop goes on with the size of the record added to \<open>freed\<close>
  and the failure counter and the failure lines unchanged. The record counts as
  deleted. The path of the record is an absolute normalised path, as the scanner builds
  it, and the sum is the exact one as long as it does not exceed \<open>2 ^ 53\<close>, up to
  where JavaScript adds integers exactly.
\<close>

theorem vanished_path_is_counted_as_freed:
  assumes "r_path r = abs_path cs" and "list_all proper_name cs"
    and "lstatSync (d_fs st) (r_path r) = Inl ENOENT"
    and "freed st + r_size r \<le> 2 ^ 53"
  shows "deleteResults_loop rmSync (r # rs) st
           = deleteResults_loop rmSync rs (st\<lparr>freed := freed st + r_size r\<rparr>)"
  using rmSync_vanished[OF assms(3)] js_add_exact[OF assms(4)] by simp

theorem vanished_path_is_counted_as_freed_witness:
  "lstatSync fs_artifacts ''/proj/gone/node_modules'' = Inl ENOENT
   \<and> deleteResults rmSync
         [\<lparr>r_name = ''node_modules'', r_path = ''/proj/gone/node_modules'', r_size = 4096\<rparr>]
         fs_artifacts
       = \<lparr>d_fs = fs_artifacts, freed = 4096, failed = 0, failures = []\<rparr>"
proof -
  let ?st = "\<lparr>d_fs = fs_artifacts, freed = 0, failed = 0, failures = []\<rparr>"
  let ?r = "\<lparr>r_name = ''node_modules'', r_path = ''/proj/gone/node_modules'', r_size = 4096\<rparr>"
  have p: "r_path ?r = abs_path [''proj'', ''gone'', ''node_modules'']"
    by (simp add: abs_path_def sep_def)
  have q: "list_all proper_name [''proj'', ''gone'', ''node_modules'']"
    by (simp add: proper_name_def sep_def)
  have h: "lstatSync (d_fs ?st) (r_path ?r) = Inl ENOENT" using lstat_gone by simp
  have b: "freed ?st + r_size ?r \<le> 2 ^ 53" by simp
  show ?thesis
    using vanished_path_is_counted_as_freed[OF p q h b, of "[]"] lstat_gone
    by (simp add: deleteResults_def)
qed

text \<open>
  Claim C3 as stated fails: \<open>/proj/old/node_modules\<close> does not exist in
  \<open>fs_artifacts\<close>, and deleting a record with this path leaves the failure counter at
  zero and adds the 4096 bytes of the record to \<open>freed\<close>.
\<close>

theorem vanished_path_counted_as_success:
  "lstatSync fs_artifacts ''/proj/old/node_modules'' = Inl ENOENT
   \<and> failed (deleteResults rmSync
        [\<lparr>r_name = ''node_modules'', r_path = ''/proj/old/node_modules'', r_size = 4096\<rparr>]
        fs_artifacts) = 0
   \<and> freed (deleteResults rmSync
        [\<lparr>r_name = ''node_modules'', r_path = ''/proj/old/node_modules'', r_size = 4096\<rparr>]
        fs_artifacts) = 4096"
  using lstat_old rmSync_vanished[OF lstat_old] js_add_exact[of 0 4096]
  by (simp add: deleteResults_def)


text \<open>Two vanished paths with the sizes \<open>2 ^ 53\<close> and 1: the second addition is
  rounded, and \<open>freed\<close> is \<open>2 ^ 53\<close>.\<close>

lemma freed_is_a_double:
  "freed (deleteResults rmSync
     [\<lparr>r_name = ''node_modules'', r_path = ''/proj/gone/node_modules'', r_size = 2 ^ 53\<rparr>,
      \<lparr>r_name = ''node_modules'', r_path = ''/proj/old/node_modules'', r_size = 1\<rparr>]
     fs_artifacts) = 2 ^ 53"
  using rmSync_vanished[OF lstat_gone] rmSync_vanished[OF lstat_old]
    js_add_exact[of 0 "2 ^ 53"] js_add_rounds(1)
  by (simp add: deleteResults_def)










section \<open>Main: theorems\<close>

lemma parseArgs_loop_dryRun:
  "dryRun (parseArgs_loop as a) \<longleftrightarrow> dryRun a \<or> ''-d'' \<in> set as \<or> ''--dry-run'' \<in> set as"
  by (induction as arbitrary: a) auto

lemma parseArgs_dryRun:
  "dryRun (parseArgs argv) \<longleftrightarrow> ''-d'' \<in> set (drop 2 argv) \<or> ''--dry-run'' \<in> set (drop 2 argv)"
  by (simp add: parseArgs_def parseArgs_loop_dryRun)

text \<open>In a dry run \<open>deleteResults\<close> is not called.\<close>

lemma dry_run_never_calls_deleteResults:
  assumes "''-d'' \<in> set (drop 2 argv) \<or> ''--dry-run'' \<in> set (drop 2 argv)"
    and "main k rm e argv fs = Some r"
  shows "deletion r = None"
proof -
  have d: "dryRun (parseArgs argv)" using assms(1) by (simp add: parseArgs_dryRun)
  show ?thesis
    using assms(2) d
    by (auto simp: main_def Let_def split: sum.splits if_splits option.splits prod.splits)
qed

text \<open>Where no shell command is run (win32), or the commands change nothing, the size
  calculation hands the file system back as it was, and so does a dry run.\<close>

lemma getDirSize_keeps_fs:
  "w \<or> (\<forall>c s. snd (ex c s) = s) \<Longrightarrow> getDirSize k w ex fs p = Some (sz, fs') \<Longrightarrow> fs' = fs"
  "w \<or> (\<forall>c s. snd (ex c s) = s) \<Longrightarrow> getDirSize_loop k w ex fs p es tot = Some (sz, fs') \<Longrightarrow> fs' = fs"
proof (induction k w ex fs p and k w ex fs p es tot arbitrary: sz fs' and sz fs'
        rule: getDirSize_getDirSize_loop.induct)
  case (1 win32 execSync fs dirPath)
  then show ?case by simp
next
  case (2 k win32 execSync fs dirPath)
  obtain out fs1 where o: "(if win32 then (None, fs) else execSync (du_command dirPath) fs) = (out, fs1)"
    by (cases "if win32 then (None, fs) else execSync (du_command dirPath) fs") auto
  have f: "fs1 = fs"
    using o "2.prems"(1) by (auto split: if_splits dest: spec[of _ "du_command dirPath"])
       (metis snd_conv)
  show ?case
  proof (cases out)
    case None
    show ?thesis
    proof (cases "readdirSync fs1 dirPath")
      case (Inl a)
      then show ?thesis using "2.prems"(2) o None f by simp
    next
      case (Inr entries)
      have "getDirSize_loop k win32 execSync fs1 dirPath entries 0 = Some (sz, fs')"
        using "2.prems"(2) o None Inr by simp
      from "2.IH"[OF o[symmetric] None Inr "2.prems"(1) this] f show ?thesis by simp
    qed
  next
    case (Some kb)
    then show ?thesis using "2.prems"(2) o f by simp
  qed
next
  case (3 k win32 execSync fs dirPath tot)
  then show ?case by simp
next
  case (4 k win32 execSync fs dirPath ename entry entries tot)
  show ?case
  proof (cases "isSymbolicLink entry")
    case True
    then show ?thesis using "4.IH"(1)[OF refl True "4.prems"(1)] "4.prems"(2) by simp
  next
    case nl: False
    show ?thesis
    proof (cases "isFile entry")
      case True
      show ?thesis
      proof (cases "statSync fs (join dirPath ename)")
        case (Inl a)
        then show ?thesis
          using "4.IH"(2)[OF refl nl True Inl "4.prems"(1)] "4.prems"(2) nl True
          by (simp add: Let_def)
      next
        case (Inr st)
        then show ?thesis
          using "4.IH"(3)[OF refl nl True Inr "4.prems"(1)] "4.prems"(2) nl True
          by (simp add: Let_def)
      qed
    next
      case nf: False
      show ?thesis
      proof (cases "isDirectory entry")
        case True
        obtain sz1 fs1 where g: "getDirSize k win32 execSync fs (join dirPath ename) = Some (sz1, fs1)"
          and l: "getDirSize_loop k win32 execSync fs1 dirPath entries (js_add tot sz1) = Some (sz, fs')"
          using "4.prems"(2) nl nf True by (auto simp: Let_def split: option.splits)
        have f1: "fs1 = fs" using "4.IH"(4)[OF refl nl nf True "4.prems"(1) g] .
        have "fs' = fs1"
          using "4.IH"(5)[OF refl nl nf True g refl "4.prems"(1) l] .
        then show ?thesis using f1 by simp
      next
        case False
        then show ?thesis
          using "4.IH"(6)[OF refl nl nf False "4.prems"(1)] "4.prems"(2) nl nf
          by (simp add: Let_def)
      qed
    qed
  qed
qed

lemma with_sizes_keeps_fs:
  "w \<or> (\<forall>c s. snd (ex c s) = s) \<Longrightarrow> with_sizes k w ex fs rs = Some (rs', fs') \<Longrightarrow> fs' = fs"
proof (induction rs arbitrary: fs rs' fs')
  case Nil
  then show ?case by simp
next
  case (Cons r rs)
  from Cons.prems(2) obtain sz fs1 rs1 where
    g: "getDirSize k w ex fs (r_path r) = Some (sz, fs1)"
    and t: "with_sizes k w ex fs1 rs = Some (rs1, fs')"
    by (auto split: option.splits)
  have "fs1 = fs" using getDirSize_keeps_fs(1)[OF Cons.prems(1) g] .
  moreover have "fs' = fs1" using Cons.IH[OF Cons.prems(1) t] .
  ultimately show ?case by simp
qed

lemma dry_run_without_shell_effects:
  assumes "''-d'' \<in> set (drop 2 argv) \<or> ''--dry-run'' \<in> set (drop 2 argv)"
    and "win32 e \<or> (\<forall>c s. snd (execSync e c s) = s)"
    and "main k rm e argv fs = Some r"
  shows "fs_after r = fs"
proof -
  have d: "dryRun (parseArgs argv)" using assms(1) by (simp add: parseArgs_dryRun)
  show ?thesis
    using assms(3) d with_sizes_keeps_fs[OF assms(2)]
    by (auto simp: main_def Let_def split: sum.splits if_splits option.splits prod.splits)
qed

lemma dry_argv_parsed:
  "parseArgs dry_argv
     = \<lparr>path = Some ''.'', dryRun = True, yes = False, version = False, help = False\<rparr>"
  by (simp add: parseArgs_def dry_argv_def startsWith_dash_def)

lemma dry_targetPath:
  "targetPath dry_env
     \<lparr>path = Some ''.'', dryRun = True, yes = False, version = False, help = False\<rparr> = ''/proj''"
  by code_simp

lemma shell_name_proper: "proper_names fs_shell_name"
  by code_simp

lemma shell_name_root: "statSync fs_shell_name ''/proj'' = lookup fs_shell_name [''proj'']"
  by code_simp

lemma shell_name_scan:
  "scan fs_shell_name ''/proj''
     = [\<lparr>r_name = ''node_modules'', r_path = ''/proj/a$(rm -r dist)/node_modules'', r_size = 0\<rparr>,
        \<lparr>r_name = ''dist'', r_path = ''/proj/dist'', r_size = 0\<rparr>]"
  by code_simp

lemma shell_on_first_record:
  "sh_in_proj (du_command ''/proj/a$(rm -r dist)/node_modules'') fs_shell_name
     = (None, fs_shell_name_without_dist)"
  by code_simp

lemma listing_of_first_record:
  "readdirSync fs_shell_name_without_dist ''/proj/a$(rm -r dist)/node_modules''
     = Inr [(''index.js'', File 2048)]"
  by code_simp

lemma stat_in_first_record:
  "statSync fs_shell_name_without_dist (join ''/proj/a$(rm -r dist)/node_modules'' ''index.js'')
     = Inr (File 2048)"
  by code_simp

lemma shell_on_second_record:
  "sh_in_proj (du_command ''/proj/dist'') fs_shell_name_without_dist
     = (None, fs_shell_name_without_dist)"
  by code_simp

lemma listing_of_second_record:
  "readdirSync fs_shell_name_without_dist ''/proj/dist'' = Inl ENOENT"
  by code_simp

lemma shell_name_sizes:
  "with_sizes (Suc k) False sh_in_proj fs_shell_name (scan fs_shell_name ''/proj'')
     = Some ([\<lparr>r_name = ''node_modules'', r_path = ''/proj/a$(rm -r dist)/node_modules'',
                 r_size = 2048\<rparr>,
              \<lparr>r_name = ''dist'', r_path = ''/proj/dist'', r_size = 0\<rparr>],
             fs_shell_name_without_dist)"
  by (simp add: shell_name_scan shell_on_first_record listing_of_first_record
        stat_in_first_record shell_on_second_record listing_of_second_record
        js_add_exact round_double_exact)

lemma dist_before_and_after:
  "statSync fs_shell_name ''/proj/dist'' = Inr (Dir rwx [(''bundle.js'', File 1024)])
   \<and> statSync fs_shell_name_without_dist ''/proj/dist'' = Inl ENOENT"
  by code_simp

text \<open>
  Claim C9 does not hold of the code. A dry run never calls \<open>deleteResults\<close>, and it
  leaves the file system as it was where no shell command is run or the commands
  change nothing (the lemmas above). But \<open>getDirSize\<close> hands the path of every record
  to the shell between double quotes, and the dry run exits only after the sizes are
  computed. In \<open>fs_shell_name\<close>, scanned from the working directory \<open>/proj\<close> with
  \<open>--dry-run\<close>, the command for the first record makes the shell remove \<open>/proj/dist\<close>:
  the run shows both records, does not call \<open>deleteResults\<close>, exits with code 0, and
  the matched directory \<open>/proj/dist\<close> that was there before is gone. This is so for
  every depth bound from 1 on.
\<close>

theorem dry_run_removes_dist_through_the_shell:
  "''--dry-run'' \<in> set (drop 2 dry_argv)
   \<and> (\<forall>k. main (Suc k) rmSync dry_env dry_argv fs_shell_name
       = Some \<lparr>exit_code = 0, fs_after = fs_shell_name_without_dist,
               shown = Some [\<lparr>r_name = ''node_modules'',
                               r_path = ''/proj/a$(rm -r dist)/node_modules'', r_size = 2048\<rparr>,
                             \<lparr>r_name = ''dist'', r_path = ''/proj/dist'', r_size = 0\<rparr>],
               deletion = None\<rparr>)
   \<and> statSync fs_shell_name ''/proj/dist'' = Inr (Dir rwx [(''bundle.js'', File 1024)])
   \<and> statSync fs_shell_name_without_dist ''/proj/dist'' = Inl ENOENT"
proof -
  have s: "scan fs_shell_name ''/proj'' \<noteq> []" by (simp add: shell_name_scan)
  have r: "lookup fs_shell_name [''proj'']
             = Inr (Dir rwx
                 [(''a$(rm -r dist)'', Dir rwx [(''node_modules'', Dir rwx [(''index.js'', File 2048)])]),
                  (''dist'', Dir rwx [(''bundle.js'', File 1024)])])"
    by (simp add: fs_shell_name_def rwx_def)
  have e: "win32 dry_env = False" "execSync dry_env = sh_in_proj"
    by (simp_all add: dry_env_def)
  have o: "sort_by_size
             [\<lparr>r_name = ''node_modules'', r_path = ''/proj/a$(rm -r dist)/node_modules'',
                 r_size = 2048\<rparr>,
              \<lparr>r_name = ''dist'', r_path = ''/proj/dist'', r_size = 0\<rparr>]
           = [\<lparr>r_name = ''node_modules'', r_path = ''/proj/a$(rm -r dist)/node_modules'',
                 r_size = 2048\<rparr>,
              \<lparr>r_name = ''dist'', r_path = ''/proj/dist'', r_size = 0\<rparr>]"
    by (simp add: sort_by_size_def)
  have m: "main (Suc k) rmSync dry_env dry_argv fs_shell_name
       = Some \<lparr>exit_code = 0, fs_after = fs_shell_name_without_dist,
               shown = Some [\<lparr>r_name = ''node_modules'',
                               r_path = ''/proj/a$(rm -r dist)/node_modules'', r_size = 2048\<rparr>,
                             \<lparr>r_name = ''dist'', r_path = ''/proj/dist'', r_size = 0\<rparr>],
               deletion = None\<rparr>"
    for k
    using s
    by (simp add: main_def Let_def dry_argv_parsed dry_targetPath shell_name_root r e
          shell_name_sizes o)
  show ?thesis
    using m dist_before_and_after by (simp add: dry_argv_def)
qed

end
